theory Spec2Isabelle
  imports Complex_Main "HOL-Library.Stream"
begin

section \<open>Random quantum objects of quimb (quimb/gen/rand.py)\<close>

text \<open>
  The module samples complex matrices and vectors with numpy and scipy. The model keeps
  its control flow, its argument handling and its arithmetic:
  \<^item> a floating-point number is a real (a complex) number, and every operation on it is
    exact: rounding is not modelled. The one float behaviour that is kept is \<open>0 / 0\<close>,
    which numpy evaluates to not-a-number without raising: such an entry is \<open>None\<close>;
  \<^item> a matrix is the list of its rows. A scipy sparse matrix is modelled by its entries
    (the stored values at the stored positions, zero elsewhere), not by its storage format;
  \<^item> the process-wide generator \<open>np.random\<close> is an explicit state that every sampler takes
    and returns: four tapes holding what the next calls will draw;
  \<^item> an exception of Python is a value \<open>Inl e\<close>.
\<close>

subsection \<open>Errors and the random source\<close>

datatype error = TypeError | ValueError | ZeroDivisionError | IndexError | UnboundLocalError

record rng =
  normals :: "real stream"
  uniforms :: "real stream"
  integers :: "nat stream"
  patterns :: "(nat \<times> nat) list stream"

type_synonym cvec = "complex list"
type_synonym cmat = "complex list list"

text \<open>\<open>np.random.randn(n)\<close>: the next \<open>n\<close> standard normal draws.\<close>

definition randn1 :: "nat \<Rightarrow> rng \<Rightarrow> real list \<times> rng" where
  "randn1 n s = (stake n (normals s), s\<lparr>normals := sdrop n (normals s)\<rparr>)"

text \<open>
  \<open>np.random.randn(r, c)\<close>: \<open>r * c\<close> draws laid out row by row; a negative dimension
  raises ValueError.
\<close>

definition reshape :: "nat \<Rightarrow> nat \<Rightarrow> 'a list \<Rightarrow> 'a list list" where
  "reshape r c xs = map (\<lambda>i. map (\<lambda>j. xs ! (i * c + j)) [0..<c]) [0..<r]"

definition randn2 :: "int \<Rightarrow> int \<Rightarrow> rng \<Rightarrow> error + (real list list \<times> rng)" where
  "randn2 r c s =
     (if r < 0 \<or> c < 0 then Inl ValueError
      else case randn1 (nat r * nat c) s of
             (xs, s') \<Rightarrow> Inr (reshape (nat r) (nat c) xs, s'))"

text \<open>\<open>np.random.rand()\<close>: the next uniform draw, a value of \<open>[0, 1)\<close>.\<close>

definition rand :: "rng \<Rightarrow> real \<times> rng" where
  "rand s = (shd (uniforms s), s\<lparr>uniforms := stl (uniforms s)\<rparr>)"

text \<open>
  \<open>np.random.randint(low, high)\<close>: an integer of \<open>[low, high)\<close>, here the next raw draw
  reduced into the range; an empty range raises ValueError.
\<close>

definition randint :: "int \<Rightarrow> int \<Rightarrow> rng \<Rightarrow> error + (int \<times> rng)" where
  "randint low high s =
     (if high \<le> low then Inl ValueError
      else Inr (low + int (shd (integers s) mod nat (high - low)),
                s\<lparr>integers := stl (integers s)\<rparr>))"

text \<open>
  \<open>scipy.sparse.random(m, n, density=density)\<close>: the positions that will hold a stored
  value, in storage order, taken from the pattern tape (scipy draws them without
  replacement inside the \<open>m\<close> by \<open>n\<close> shape). A density outside \<open>[0, 1]\<close> and a negative
  shape raise ValueError. The values scipy stores there are overwritten by every caller.
\<close>

definition sp_random :: "int \<Rightarrow> int \<Rightarrow> real \<Rightarrow> rng \<Rightarrow> error + ((nat \<times> nat) list \<times> rng)" where
  "sp_random m n density s =
     (if m < 0 \<or> n < 0 \<or> density < 0 \<or> 1 < density then Inl ValueError
      else Inr (shd (patterns s), s\<lparr>patterns := stl (patterns s)\<rparr>))"

subsection \<open>Matrices\<close>

definition ncols :: "'a list list \<Rightarrow> nat" where
  "ncols A = (case A of [] \<Rightarrow> 0 | r # _ \<Rightarrow> length r)"

definition is_shape :: "nat \<Rightarrow> nat \<Rightarrow> 'a list list \<Rightarrow> bool" where
  "is_shape r c A \<longleftrightarrow> length A = r \<and> list_all (\<lambda>row. length row = c) A"

definition column :: "'a list list \<Rightarrow> nat \<Rightarrow> 'a list" where
  "column A j = map (\<lambda>row. row ! j) A"

text \<open>\<open>A.H\<close>, the conjugate transpose.\<close>

definition dagger :: "cmat \<Rightarrow> cmat" where
  "dagger A = map (\<lambda>j. map cnj (column A j)) [0..<ncols A]"

definition madd :: "cmat \<Rightarrow> cmat \<Rightarrow> cmat" where
  "madd A B = map2 (map2 (+)) A B"

text \<open>\<open>A / x\<close> for a real scalar \<open>x\<close>.\<close>

definition mdiv :: "cmat \<Rightarrow> real \<Rightarrow> cmat" where
  "mdiv A x = map (map (\<lambda>z. z / complex_of_real x)) A"

text \<open>\<open>A @ B\<close>, the matrix product.\<close>

definition mmul :: "cmat \<Rightarrow> cmat \<Rightarrow> cmat" where
  "mmul A B = map (\<lambda>row. map (\<lambda>j. (\<Sum>k<length row. row ! k * B ! k ! j)) [0..<ncols B]) A"

definition trace :: "cmat \<Rightarrow> complex" where
  "trace A = (\<Sum>i<length A. A ! i ! i)"

text \<open>
  The entries of the \<open>r\<close> by \<open>c\<close> sparse matrix that stores \<open>data ! k\<close> at position
  \<open>idx ! k\<close>: every position that is not stored is zero.
\<close>

definition of_sparse :: "nat \<Rightarrow> nat \<Rightarrow> (nat \<times> nat) list \<Rightarrow> cvec \<Rightarrow> cmat" where
  "of_sparse r c idx data =
     map (\<lambda>i. map (\<lambda>j. case map_of (zip idx data) (i, j) of None \<Rightarrow> 0 | Some z \<Rightarrow> z) [0..<c])
       [0..<r]"

subsection \<open>rand_matrix\<close>

text \<open>
  \<open>density = min(0.5, 10/d) if density is None else density\<close>: the true division raises
  ZeroDivisionError at \<open>d = 0\<close>.
\<close>

definition default_density :: "int \<Rightarrow> error + real" where
  "default_density d =
     (if d = 0 then Inl ZeroDivisionError else Inr (min (1/2) (10 / real_of_int d)))"

text \<open>
  \<open>rand_matrix(d, scaled, sparse, format, density)\<close>. The storage format does not change
  the entries and is left out. In the sparse branch \<open>mat /= x\<close> is scipy's in-place
  division by a scalar, which multiplies the stored values by the Python float
  \<open>1.0 / x\<close> and so raises ZeroDivisionError at \<open>x = 0\<close>; in the dense branch numpy
  divides entry by entry without raising (at \<open>d = 0\<close> there is no entry).
\<close>

definition rand_matrix ::
  "int \<Rightarrow> bool \<Rightarrow> bool \<Rightarrow> real option \<Rightarrow> rng \<Rightarrow> error + (cmat \<times> rng)" where
  "rand_matrix d scaled sparse density s =
     (if sparse then
        (case (case density of None \<Rightarrow> default_density d | Some \<rho> \<Rightarrow> Inr \<rho>) of
           Inl e \<Rightarrow> Inl e
         | Inr density' \<Rightarrow>
            (case sp_random d d density' s of
               Inl e \<Rightarrow> Inl e
             | Inr (idx, s1) \<Rightarrow>
                (case randn1 (length idx) s1 of (re, s2) \<Rightarrow>
                 case randn1 (length idx) s2 of (im, s3) \<Rightarrow>
                   let data = map2 Complex re im;
                       x = sqrt (2 * real_of_int d * density')
                   in if scaled then
                        (if x = 0 then Inl ZeroDivisionError
                         else Inr (of_sparse (nat d) (nat d) idx
                                     (map (\<lambda>z. z * complex_of_real (1 / x)) data), s3))
                      else Inr (of_sparse (nat d) (nat d) idx data, s3))))
      else
        (let density' = 1 in
         case randn2 d d s of
           Inl e \<Rightarrow> Inl e
         | Inr (re, s1) \<Rightarrow>
            (case randn2 d d s1 of
               Inl e \<Rightarrow> Inl e
             | Inr (im, s2) \<Rightarrow>
                 let mat = map2 (map2 Complex) re im
                 in if scaled then Inr (mdiv mat (sqrt (2 * real_of_int d * density')), s2)
                    else Inr (mat, s2))))"

subsection \<open>rand_herm and rand_pos\<close>

text \<open>
  \<open>density = min(0.5, 10/d) if density is None and sparse else density\<close>: the default is
  resolved in the sparse case only.
\<close>

definition resolve_density :: "int \<Rightarrow> bool \<Rightarrow> real option \<Rightarrow> error + real option" where
  "resolve_density d sparse density =
     (if density = None \<and> sparse then map_sum id Some (default_density d) else Inr density)"

text \<open>
  \<open>rand_herm(d, sparse, density)\<close>. The argument \<open>density/2\<close> is evaluated before
  \<open>rand_matrix\<close> is called, and raises TypeError when \<open>density\<close> is still None.
  \<open>2**1.5\<close> is \<open>2 powr (3/2)\<close>.
\<close>

definition rand_herm :: "int \<Rightarrow> bool \<Rightarrow> real option \<Rightarrow> rng \<Rightarrow> error + (cmat \<times> rng)" where
  "rand_herm d sparse density s =
     (case resolve_density d sparse density of
        Inl e \<Rightarrow> Inl e
      | Inr None \<Rightarrow> Inl TypeError
      | Inr (Some \<rho>) \<Rightarrow>
         (case rand_matrix d True sparse (Some (\<rho> / 2)) s of
            Inl e \<Rightarrow> Inl e
          | Inr (M, s') \<Rightarrow>
              let herm = mdiv M (2 powr (3/2))
              in Inr (madd herm (dagger herm), s')))"

text \<open>
  \<open>rand_pos(d, sparse, density)\<close>. The argument \<open>(density/d)**0.5\<close> raises TypeError when
  \<open>density\<close> is still None and ZeroDivisionError at \<open>d = 0\<close>. The power of a negative
  float is a complex number in Python 3: the dense branch of \<open>rand_matrix\<close> never reads
  its density, the sparse branch compares it with 0 inside scipy, a TypeError.
\<close>

definition rand_pos :: "int \<Rightarrow> bool \<Rightarrow> real option \<Rightarrow> rng \<Rightarrow> error + (cmat \<times> rng)" where
  "rand_pos d sparse density s =
     (case resolve_density d sparse density of
        Inl e \<Rightarrow> Inl e
      | Inr None \<Rightarrow> Inl TypeError
      | Inr (Some \<rho>) \<Rightarrow>
         if d = 0 then Inl ZeroDivisionError
         else if \<rho> / real_of_int d < 0 \<and> sparse then Inl TypeError
         else
          (case rand_matrix d True sparse
                  (if \<rho> / real_of_int d < 0 then None else Some (sqrt (\<rho> / real_of_int d))) s of
             Inl e \<Rightarrow> Inl e
           | Inr (M, s') \<Rightarrow>
               let pos = mdiv M 2
               in Inr (mmul pos (dagger pos), s')))"

subsection \<open>rand_ket\<close>

text \<open>A ket, a matrix of one column, is the list of its entries.\<close>

definition vnorm :: "cvec \<Rightarrow> real" where
  "vnorm v = sqrt (\<Sum>z\<leftarrow>v. (cmod z)\<^sup>2)"

text \<open>
  Modelled from the spec: \<open>nmlz\<close> of quimb.core is not among the sources; the spec has it
  rescale a ket to unit Euclidean norm. The ket is divided by its norm; for the zero ket
  every entry is \<open>0 / 0\<close>, not a number: \<open>None\<close>.
\<close>

definition nmlz :: "cvec \<Rightarrow> cvec option" where
  "nmlz v = (if vnorm v = 0 then None
             else Some (map (\<lambda>z. z / complex_of_real (vnorm v)) v))"

text \<open>\<open>rand_ket(d, sparse, format, density)\<close>; the default density is \<open>0.01\<close>.\<close>

definition rand_ket :: "int \<Rightarrow> bool \<Rightarrow> real \<Rightarrow> rng \<Rightarrow> error + (cvec option \<times> rng)" where
  "rand_ket d sparse density s =
     (if sparse then
        (case sp_random d 1 density s of
           Inl e \<Rightarrow> Inl e
         | Inr (idx, s1) \<Rightarrow>
            (case randn1 (length idx) s1 of (re, s2) \<Rightarrow>
             case randn1 (length idx) s2 of (im, s3) \<Rightarrow>
               Inr (nmlz (concat (of_sparse (nat d) 1 idx (map2 Complex re im))), s3)))
      else
        (case randn2 d 1 s of
           Inl e \<Rightarrow> Inl e
         | Inr (re, s1) \<Rightarrow>
            (case randn2 d 1 s1 of
               Inl e \<Rightarrow> Inl e
             | Inr (im, s2) \<Rightarrow> Inr (nmlz (concat (map2 (map2 Complex) re im)), s2))))"

subsection \<open>rand_uni, rand_haar_state and gen_rand_haar_states\<close>

text \<open>\<open>np.diagonal(r)\<close>.\<close>

definition diagonal :: "'a list list \<Rightarrow> 'a list" where
  "diagonal A = map (\<lambda>i. A ! i ! i) [0..<min (length A) (ncols A)]"

text \<open>
  \<open>r / np.abs(r)\<close>, entry by entry: the phase of a non-zero entry; a zero entry gives
  \<open>0 / 0\<close>, not a number, and numpy does not raise.
\<close>

definition phases :: "cvec \<Rightarrow> complex option list" where
  "phases r = map (\<lambda>z. if cmod z = 0 then None else Some (z / complex_of_real (cmod z))) r"

text \<open>
  Modelled from the spec: \<open>rdmul\<close> of quimb.accel is not among the sources; the spec has it
  right-multiply a matrix by a diagonal, \<open>Q \<cdot> diag(\<lambda>)\<close>: entry \<open>(i, j)\<close> is
  \<open>Q\<^sub>i\<^sub>j * \<lambda>\<^sub>j\<close>, not a number where \<open>\<lambda>\<^sub>j\<close> is not.
\<close>

definition rdmul :: "cmat \<Rightarrow> complex option list \<Rightarrow> complex option list list" where
  "rdmul Q lam = map (\<lambda>row. map2 (\<lambda>a l. map_option (\<lambda>z. a * z) l) row lam) Q"

text \<open>
  \<open>rand_uni(d)\<close>. The factorisation \<open>np.linalg.qr\<close> belongs to numpy and is the parameter
  \<open>qr\<close>, which returns the pair \<open>(q, r)\<close>. The call \<open>rand_matrix(d)\<close> takes the defaults
  \<open>scaled=True, sparse=False, density=None\<close>.
\<close>

definition rand_uni ::
  "(cmat \<Rightarrow> cmat \<times> cmat) \<Rightarrow> int \<Rightarrow> rng \<Rightarrow> error + (complex option list list \<times> rng)" where
  "rand_uni qr d s =
     (case rand_matrix d True False None s of
        Inl e \<Rightarrow> Inl e
      | Inr (M, s') \<Rightarrow>
         (case qr M of (q, r) \<Rightarrow>
            let r = diagonal r;
                r = phases r
            in Inr (rdmul q r, s')))"

text \<open>\<open>u[:, j]\<close>: column \<open>j\<close>, or IndexError when the matrix has no such column.\<close>

definition getcol :: "'a list list \<Rightarrow> int \<Rightarrow> error + 'a list" where
  "getcol U j =
     (if 0 \<le> j \<and> U \<noteq> [] \<and> list_all (\<lambda>row. nat j < length row) U then Inr (column U (nat j))
      else Inl IndexError)"

definition rand_haar_state ::
  "(cmat \<Rightarrow> cmat \<times> cmat) \<Rightarrow> int \<Rightarrow> rng \<Rightarrow> error + (complex option list \<times> rng)" where
  "rand_haar_state qr d s =
     (case rand_uni qr d s of
        Inl e \<Rightarrow> Inl e
      | Inr (u, s') \<Rightarrow> (case getcol u 0 of Inl e \<Rightarrow> Inl e | Inr c \<Rightarrow> Inr (c, s')))"

text \<open>
  \<open>gen_rand_haar_states(d, reps)\<close>: the loop over \<open>rep\<close>, with the local \<open>u\<close> (unbound
  before the first assignment) and the random source as its state. The model returns the
  vectors the generator yields, in order; when an iteration raises, the model returns the
  error alone.
\<close>

fun gen_loop ::
  "(cmat \<Rightarrow> cmat \<times> cmat) \<Rightarrow> int \<Rightarrow> nat list \<Rightarrow> complex option list list option \<Rightarrow> rng \<Rightarrow>
     error + (complex option list list \<times> rng)" where
  "gen_loop qr d [] u s = Inr ([], s)"
| "gen_loop qr d (rep # reps) u s =
     (if d = 0 then Inl ZeroDivisionError
      else
        let cyc = int rep mod d in
        case (if cyc = 0 then map_sum id (\<lambda>(u', s'). (Some u', s')) (rand_uni qr d s)
              else Inr (u, s)) of
          Inl e \<Rightarrow> Inl e
        | Inr (None, s') \<Rightarrow> Inl UnboundLocalError
        | Inr (Some u', s') \<Rightarrow>
           (case getcol u' cyc of
              Inl e \<Rightarrow> Inl e
            | Inr c \<Rightarrow>
               (case gen_loop qr d reps (Some u') s' of
                  Inl e \<Rightarrow> Inl e
                | Inr (cs, s'') \<Rightarrow> Inr (c # cs, s''))))"

definition gen_rand_haar_states ::
  "(cmat \<Rightarrow> cmat \<times> cmat) \<Rightarrow> int \<Rightarrow> int \<Rightarrow> rng \<Rightarrow> error + (complex option list list \<times> rng)" where
  "gen_rand_haar_states qr d reps s = gen_loop qr d [0..<nat reps] None s"

subsection \<open>rand_mix\<close>

text \<open>
  Modelled from the spec: \<open>ptr\<close> of quimb.core is not among the sources. The spec has it
  reduce a joint state over a partition to the marginal of a subsystem, and has the call
  \<open>ptr(psi, [d, m], 0)\<close> return the partial trace over the auxiliary subsystem of index 1:
  the last argument is the subsystem that is kept. For the ket \<open>psi\<close> over the partition
  \<open>(a, b)\<close>, whose entry for the basis pair \<open>(i, k)\<close> is \<open>psi ! (i * b + k)\<close>, the marginal
  of subsystem 0 sums over \<open>k\<close> and the marginal of subsystem 1 sums over \<open>i\<close>.
\<close>

definition ptr :: "cvec \<Rightarrow> nat \<times> nat \<Rightarrow> nat \<Rightarrow> cmat" where
  "ptr psi dims keep =
     (case dims of (a, b) \<Rightarrow>
        if keep = 0 then
          map (\<lambda>i. map (\<lambda>j. (\<Sum>k<b. psi ! (i * b + k) * cnj (psi ! (j * b + k)))) [0..<a]) [0..<a]
        else
          map (\<lambda>k. map (\<lambda>l. (\<Sum>i<a. psi ! (i * b + k) * cnj (psi ! (i * b + l)))) [0..<b]) [0..<b])"

text \<open>\<open>rand_mix(d)\<close>; \<open>rand_ket(d * m)\<close> takes the defaults \<open>sparse=False, density=0.01\<close>.\<close>

definition rand_mix :: "int \<Rightarrow> rng \<Rightarrow> error + (cmat option \<times> rng)" where
  "rand_mix d s =
     (case randint 2 (d + 1) s of
        Inl e \<Rightarrow> Inl e
      | Inr (m, s1) \<Rightarrow>
         (case rand_ket (d * m) False (1/100) s1 of
            Inl e \<Rightarrow> Inl e
          | Inr (psi, s2) \<Rightarrow> Inr (map_option (\<lambda>v. ptr v (nat d, nat m) 0) psi, s2)))"

subsection \<open>rand_product_state\<close>

text \<open>
  One pass of the loop of \<open>gen_rand_pure_qubits\<close>: two uniform draws \<open>u\<close> and \<open>v\<close>, the
  angles, and the qubit. \<open>np.random.rand\<close> yields \<open>v\<close> in \<open>[0, 1)\<close>, where \<open>2 * v - 1\<close> is in
  the domain of the arc cosine. Modelled from the spec: \<open>qu\<close> of quimb.core is not among
  the sources; with the default \<open>qtype=None\<close> it wraps the two entries as a ket.
\<close>

definition rand_pure_qubit :: "rng \<Rightarrow> cvec \<times> rng" where
  "rand_pure_qubit s =
     (case rand s of (u, s1) \<Rightarrow>
      case rand s1 of (v, s2) \<Rightarrow>
        let phi = 2 * pi * u;
            theta = arccos (2 * v - 1)
        in ([complex_of_real (cos (theta / 2)),
             complex_of_real (sin (theta / 2)) * exp (\<i> * complex_of_real phi)], s2))"

fun gen_rand_pure_qubits :: "nat \<Rightarrow> rng \<Rightarrow> cvec list \<times> rng" where
  "gen_rand_pure_qubits 0 s = ([], s)"
| "gen_rand_pure_qubits (Suc n) s =
     (case rand_pure_qubit s of (q, s1) \<Rightarrow>
      case gen_rand_pure_qubits n s1 of (qs, s2) \<Rightarrow> (q # qs, s2))"

text \<open>
  Modelled from the spec: \<open>kron\<close> of quimb.core is not among the sources; the spec has it
  form the tensor product of an ordered sequence of states, from left to right, the empty
  product being the scalar 1 (here the ket of the single entry 1).
\<close>

definition tensor :: "cvec \<Rightarrow> cvec \<Rightarrow> cvec" where
  "tensor a b = concat (map (\<lambda>x. map (\<lambda>y. x * y) b) a)"

definition kron :: "cvec list \<Rightarrow> cvec" where
  "kron ps = foldl tensor [1] ps"

text \<open>\<open>rand_product_state(n)\<close>; \<open>range(n)\<close> is empty for a negative \<open>n\<close>.\<close>

definition rand_product_state :: "int \<Rightarrow> rng \<Rightarrow> cvec \<times> rng" where
  "rand_product_state n s =
     (case gen_rand_pure_qubits (nat n) s of (qs, s') \<Rightarrow> (kron qs, s'))"

subsection \<open>The qubit of the spec\<close>

text \<open>
  The single-qubit state of the spec for the uniform draws \<open>u\<close> and \<open>v\<close>:
  \<open>[cos(\<theta>/2), sin(\<theta>/2) * e^{i \<phi>}]\<close> with \<open>\<phi> = 2 \<pi> u\<close> and \<open>\<theta> = arccos(2 v - 1)\<close>.
\<close>

definition bloch_qubit :: "real \<Rightarrow> real \<Rightarrow> cvec" where
  "bloch_qubit u v =
     [complex_of_real (cos (arccos (2 * v - 1) / 2)),
      complex_of_real (sin (arccos (2 * v - 1) / 2)) * exp (\<i> * complex_of_real (2 * pi * u))]"

subsection \<open>The successive samples of gen_rand_haar_states\<close>

text \<open>
  The random source after \<open>k\<close> dense \<open>n\<close> by \<open>n\<close> samples (each reads \<open>2 * n * n\<close> normal
  draws), and the matrix that the call of \<open>rand_uni(d)\<close> number \<open>k\<close> returns when the
  calls follow one another from the source \<open>s\<close>.
\<close>

definition after_samples :: "nat \<Rightarrow> nat \<Rightarrow> rng \<Rightarrow> rng" where
  "after_samples n k s = s\<lparr>normals := sdrop (k * (2 * (n * n))) (normals s)\<rparr>"

definition sampled_unitary ::
  "(cmat \<Rightarrow> cmat \<times> cmat) \<Rightarrow> int \<Rightarrow> nat \<Rightarrow> rng \<Rightarrow> complex option list list" where
  "sampled_unitary qr d k s =
     (case rand_uni qr d (after_samples (nat d) k s) of Inr (U, _) \<Rightarrow> U | Inl _ \<Rightarrow> [])"

subsection \<open>Concrete inputs\<close>

text \<open>
  A random source given by the first values of its four tapes; each tape goes on with
  zeros (with empty patterns).
\<close>

definition rng_of :: "real list \<Rightarrow> real list \<Rightarrow> nat list \<Rightarrow> (nat \<times> nat) list list \<Rightarrow> rng" where
  "rng_of ns us ks ps =
     \<lparr>normals = ns @- sconst 0, uniforms = us @- sconst 0,
      integers = ks @- sconst 0, patterns = ps @- sconst []\<rparr>"

definition identity :: "nat \<Rightarrow> cmat" where
  "identity n = map (\<lambda>i. map (\<lambda>j. if i = j then 1 else 0) [0..<n]) [0..<n]"

text \<open>
  A factorisation for upper-triangular inputs: the unitary factor is the identity and the
  triangular factor is the input itself.
\<close>

definition qr_triangular :: "cmat \<Rightarrow> cmat \<times> cmat" where
  "qr_triangular M = (identity (length M), M)"

section \<open>Properties of rand_matrix, rand_herm and rand_pos\<close>

lemma is_shape_reshape: "is_shape r c (reshape r c xs)"
  by (simp add: is_shape_def reshape_def list_all_iff)

lemma is_shape_iff: "is_shape r c A \<longleftrightarrow> length A = r \<and> (\<forall>i<r. length (A ! i) = c)"
  by (auto simp: is_shape_def list_all_length)

lemma is_shape_map2:
  "is_shape r c A \<Longrightarrow> is_shape r c B \<Longrightarrow> is_shape r c (map2 (map2 f) A B)"
  by (simp add: is_shape_iff)

lemma is_shape_map: "is_shape r c A \<Longrightarrow> is_shape r c (map (map f) A)"
  by (simp add: is_shape_def list_all_iff)

lemma of_sparse_map:
  "f 0 = 0 \<Longrightarrow> of_sparse r c idx (map f data) = map (map f) (of_sparse r c idx data)"
  by (simp add: of_sparse_def zip_map2 map_of_map split: option.splits)

lemma is_shape_of_sparse: "is_shape r c (of_sparse r c idx data)"
  by (simp add: is_shape_def of_sparse_def list_all_iff)

lemma mat_eqI:
  assumes "is_shape r c A" "is_shape r c B" "\<And>i j. i < r \<Longrightarrow> j < c \<Longrightarrow> A ! i ! j = B ! i ! j"
  shows "A = B"
proof (rule nth_equalityI)
  show "length A = length B" using assms by (simp add: is_shape_iff)
next
  fix i assume "i < length A"
  then have i: "i < r" using assms by (simp add: is_shape_iff)
  show "A ! i = B ! i"
    by (rule nth_equalityI) (use assms i in \<open>auto simp: is_shape_iff\<close>)
qed

lemma of_sparse_nth:
  "i < r \<Longrightarrow> j < c \<Longrightarrow>
   of_sparse r c idx data ! i ! j = (case map_of (zip idx data) (i, j) of None \<Rightarrow> 0 | Some z \<Rightarrow> z)"
  by (simp add: of_sparse_def)

lemma of_sparse_unselected:
  "i < r \<Longrightarrow> j < c \<Longrightarrow> (i, j) \<notin> set idx \<Longrightarrow> of_sparse r c idx data ! i ! j = 0"
proof -
  assume a: "i < r" "j < c" "(i, j) \<notin> set idx"
  have "map_of (zip idx data) (i, j) = None"
    using a(3) by (auto simp: map_of_eq_None_iff dest: set_zip_leftD)
  then show ?thesis using a by (simp add: of_sparse_nth)
qed

lemma of_sparse_selected:
  assumes "distinct idx" "length data = length idx" "k < length idx"
    "fst (idx ! k) < r" "snd (idx ! k) < c"
  shows "of_sparse r c idx data ! fst (idx ! k) ! snd (idx ! k) = data ! k"
proof -
  have "map_of (zip idx data) (idx ! k) = Some (data ! k)"
    using assms by (simp add: map_of_zip_nth)
  then show ?thesis using assms by (simp add: of_sparse_nth)
qed

lemma default_density_pos:
  "1 \<le> d \<Longrightarrow> 0 < min (1/2) (10 / real_of_int d) \<and> min (1/2) (10 / real_of_int d) \<le> 1"
  by (simp add: min_def)

lemmas eval_rng = rng_of_def randn1_def randn2_def sp_random_def reshape_def upt_rec eval_nat_numeral

text \<open>
  C2. For every \<open>d \<ge> 1\<close> and every density in \<open>(0, 1]\<close>, \<open>rand_matrix\<close> called with
  \<open>scaled\<close> true returns the matrix of the unscaled call on the same random source with
  every entry divided by \<open>sqrt (2 * d * density)\<close>; in dense mode the density used for
  this scaling is 1.
\<close>

theorem rand_matrix_scaled:
  assumes "1 \<le> d" "0 < \<rho>" "\<rho> \<le> 1"
  shows "\<exists>M M0 s'. rand_matrix d True sparse (Some \<rho>) s = Inr (M, s')
           \<and> rand_matrix d False sparse (Some \<rho>) s = Inr (M0, s')
           \<and> is_shape (nat d) (nat d) M0
           \<and> M = mdiv M0 (sqrt (2 * real_of_int d * (if sparse then \<rho> else 1)))"
proof (cases sparse)
  case True
  have x: "sqrt (2 * real_of_int d * \<rho>) \<noteq> 0" using assms by simp
  show ?thesis using assms True x
    apply (simp add: rand_matrix_def sp_random_def randn1_def Let_def is_shape_of_sparse mdiv_def)
    apply (subst of_sparse_map[symmetric])
    apply (simp_all add: divide_inverse)
    done
next
  case False
  then show ?thesis using assms
    by (simp add: rand_matrix_def randn2_def randn1_def Let_def is_shape_reshape is_shape_map2)
qed

text \<open>
  C2 at \<open>d = 2\<close>, density \<open>1/2\<close>, sparse mode: the divisor is \<open>sqrt 2\<close>.
\<close>

theorem rand_matrix_scaled_witness:
  "(1::int) \<le> 2 \<and> (0::real) < 1/2 \<and> (1/2::real) \<le> 1
   \<and> (\<exists>M M0 s'. rand_matrix 2 True True (Some (1/2)) (rng_of [3, 4] [] [] [[(0, 1)]]) = Inr (M, s')
           \<and> rand_matrix 2 False True (Some (1/2)) (rng_of [3, 4] [] [] [[(0, 1)]]) = Inr (M0, s')
           \<and> is_shape 2 2 M0 \<and> M = mdiv M0 (sqrt 2))"
  using rand_matrix_scaled [of 2 "1/2" True "rng_of [3, 4] [] [] [[(0, 1)]]"]
  by simp

text \<open>
  C8. For every \<open>d \<ge> 1\<close>, \<open>rand_matrix\<close> in sparse mode with no density supplied behaves
  as with the density \<open>min(0.5, 10/d)\<close>; every position of the result outside the
  selected pattern is exactly zero, and the \<open>k\<close>-th selected position holds the \<open>k\<close>-th
  sampled value (divided by \<open>sqrt (2 * d * density)\<close> when \<open>scaled\<close>).
\<close>

theorem rand_matrix_sparse_default:
  assumes "1 \<le> d"
  shows "\<exists>M s'. rand_matrix d scaled True None s = Inr (M, s')
           \<and> rand_matrix d scaled True (Some (min (1/2) (10 / real_of_int d))) s = Inr (M, s')
           \<and> is_shape (nat d) (nat d) M
           \<and> (\<forall>i<nat d. \<forall>j<nat d. (i, j) \<notin> set (shd (patterns s)) \<longrightarrow> M ! i ! j = 0)
           \<and> (distinct (shd (patterns s)) \<longrightarrow>
                (\<forall>k<length (shd (patterns s)).
                   fst (shd (patterns s) ! k) < nat d \<longrightarrow> snd (shd (patterns s) ! k) < nat d \<longrightarrow>
                   M ! fst (shd (patterns s) ! k) ! snd (shd (patterns s) ! k)
                     = Complex (normals s !! k) (normals s !! (length (shd (patterns s)) + k))
                       / complex_of_real
                           (if scaled then sqrt (2 * real_of_int d * min (1/2) (10 / real_of_int d))
                            else 1)))"
proof -
  define \<rho> where "\<rho> = min (1/2) (10 / real_of_int d)"
  have rho: "0 < \<rho>" "\<rho> \<le> 1" using default_density_pos[OF assms] by (auto simp: \<rho>_def)
  have d0: "d \<noteq> 0" using assms by simp
  have x: "sqrt (2 * real_of_int d * \<rho>) \<noteq> 0" using d0 rho by simp
  have dd: "default_density d = Inr \<rho>" using d0 by (simp add: default_density_def \<rho>_def)
  have neg: "\<not> \<rho> < 0" "\<not> 1 < \<rho>" using rho by auto
  show ?thesis
    unfolding \<rho>_def[symmetric]
  proof (cases scaled)
    case True
    show "\<exists>M s'. rand_matrix d scaled True None s = Inr (M, s')
           \<and> rand_matrix d scaled True (Some \<rho>) s = Inr (M, s')
           \<and> is_shape (nat d) (nat d) M
           \<and> (\<forall>i<nat d. \<forall>j<nat d. (i, j) \<notin> set (shd (patterns s)) \<longrightarrow> M ! i ! j = 0)
           \<and> (distinct (shd (patterns s)) \<longrightarrow>
                (\<forall>k<length (shd (patterns s)).
                   fst (shd (patterns s) ! k) < nat d \<longrightarrow> snd (shd (patterns s) ! k) < nat d \<longrightarrow>
                   M ! fst (shd (patterns s) ! k) ! snd (shd (patterns s) ! k)
                     = Complex (normals s !! k) (normals s !! (length (shd (patterns s)) + k))
                       / complex_of_real
                           (if scaled then sqrt (2 * real_of_int d * \<rho>)
                            else 1)))"
      using assms neg x True dd
      by (simp add: rand_matrix_def sp_random_def randn1_def Let_def
          is_shape_of_sparse of_sparse_unselected of_sparse_selected sdrop_snth divide_inverse)
  next
    case False
    show "\<exists>M s'. rand_matrix d scaled True None s = Inr (M, s')
           \<and> rand_matrix d scaled True (Some \<rho>) s = Inr (M, s')
           \<and> is_shape (nat d) (nat d) M
           \<and> (\<forall>i<nat d. \<forall>j<nat d. (i, j) \<notin> set (shd (patterns s)) \<longrightarrow> M ! i ! j = 0)
           \<and> (distinct (shd (patterns s)) \<longrightarrow>
                (\<forall>k<length (shd (patterns s)).
                   fst (shd (patterns s) ! k) < nat d \<longrightarrow> snd (shd (patterns s) ! k) < nat d \<longrightarrow>
                   M ! fst (shd (patterns s) ! k) ! snd (shd (patterns s) ! k)
                     = Complex (normals s !! k) (normals s !! (length (shd (patterns s)) + k))
                       / complex_of_real
                           (if scaled then sqrt (2 * real_of_int d * \<rho>)
                            else 1)))"
      using assms neg x False dd
      by (simp add: rand_matrix_def sp_random_def randn1_def Let_def
          is_shape_of_sparse of_sparse_unselected of_sparse_selected sdrop_snth)
  qed
qed

text \<open>
  C8 at \<open>d = 2\<close> with the single selected position \<open>(0, 1)\<close> and the draws 3 and 4.
\<close>

theorem rand_matrix_sparse_default_witness:
  "\<exists>M s'. rand_matrix 2 True True None (rng_of [3, 4] [] [] [[(0, 1)]]) = Inr (M, s')
      \<and> rand_matrix 2 True True (Some (1/2)) (rng_of [3, 4] [] [] [[(0, 1)]]) = Inr (M, s')
      \<and> M ! 0 ! 0 = 0 \<and> M ! 1 ! 0 = 0 \<and> M ! 1 ! 1 = 0
      \<and> M ! 0 ! 1 = Complex 3 4 / complex_of_real (sqrt 2)"
proof -
  let ?s = "rng_of [3, 4] [] [] [[(0, 1)]]"
  have p: "shd (patterns ?s) = [(0, 1)]" by (simp add: rng_of_def)
  have n: "normals ?s !! 0 = 3" "normals ?s !! 1 = 4" by (simp_all add: rng_of_def)
  have m: "min (1/2) (10 / real_of_int 2) = 1/2" by simp
  from rand_matrix_sparse_default [of 2 True ?s]
  obtain M s' where
    a: "rand_matrix 2 True True None ?s = Inr (M, s')"
    and b: "rand_matrix 2 True True (Some (min (1/2) (10 / real_of_int 2))) ?s = Inr (M, s')"
    and z: "\<forall>i<nat 2. \<forall>j<nat 2. (i, j) \<notin> set (shd (patterns ?s)) \<longrightarrow> M ! i ! j = 0"
    and v: "distinct (shd (patterns ?s)) \<longrightarrow>
                (\<forall>k<length (shd (patterns ?s)).
                   fst (shd (patterns ?s) ! k) < nat 2 \<longrightarrow> snd (shd (patterns ?s) ! k) < nat 2 \<longrightarrow>
                   M ! fst (shd (patterns ?s) ! k) ! snd (shd (patterns ?s) ! k)
                     = Complex (normals ?s !! k) (normals ?s !! (length (shd (patterns ?s)) + k))
                       / complex_of_real
                           (if True then sqrt (2 * real_of_int 2 * min (1/2) (10 / real_of_int 2))
                            else 1))"
    by auto
  have z0: "M ! 0 ! 0 = 0" "M ! 1 ! 0 = 0" "M ! 1 ! 1 = 0"
    using z unfolding p by simp_all
  have v0: "M ! 0 ! 1 = Complex 3 4 / complex_of_real (sqrt 2)"
    using v n unfolding p m by simp
  show ?thesis using a b z0 v0 unfolding m by blast
qed




text \<open>
  C10. For every \<open>d \<ge> 1\<close>, \<open>rand_herm(d)\<close> and \<open>rand_pos(d)\<close> called with \<open>sparse\<close> false
  and no density fail with TypeError, and no matrix is produced: the default None is
  resolved in the sparse case only, and is then divided.
\<close>

theorem rand_herm_pos_default_density:
  assumes "1 \<le> d"
  shows "rand_herm d False None s = Inl TypeError \<and> rand_pos d False None s = Inl TypeError"
  by (simp add: rand_herm_def rand_pos_def resolve_density_def)

text \<open>
  C10 at \<open>d = 1\<close>.
\<close>

theorem rand_herm_pos_default_density_witness:
  "(1::int) \<le> 1 \<and> rand_herm 1 False None (rng_of [] [] [] []) = Inl TypeError
   \<and> rand_pos 1 False None (rng_of [] [] [] []) = Inl TypeError"
  using rand_herm_pos_default_density [of 1 "rng_of [] [] [] []"] by simp

section \<open>Properties of rand_uni\<close>

lemma index_bound: "i < n \<Longrightarrow> j < m \<Longrightarrow> i * m + j < n * (m::nat)"
proof -
  assume a: "i < n" "j < m"
  have "i * m + j < i * m + m" using a by simp
  also have "\<dots> = Suc i * m" by simp
  also have "\<dots> \<le> n * m" using a by (metis Suc_leI mult_le_mono1)
  finally show ?thesis .
qed

lemma reshape_stake:
  "reshape n m (stake (n * m) S) = map (\<lambda>i. map (\<lambda>j. S !! (i * m + j)) [0..<m]) [0..<n]"
  unfolding reshape_def by (intro map_cong refl) (simp add: index_bound)

lemma map2_rows:
  "map2 (map2 f) (map (\<lambda>i. map (g i) [0..<m]) [0..<n]) (map (\<lambda>i. map (h i) [0..<m]) [0..<n])
     = map (\<lambda>i. map (\<lambda>j. f (g i j) (h i j)) [0..<m]) [0..<n]"
  by (simp add: map2_map_map)

lemma rand_matrix_dense:
  assumes "0 \<le> d"
  shows "rand_matrix d True False None s =
     Inr (map (\<lambda>i. map (\<lambda>j. Complex (normals s !! (i * nat d + j))
                                 (normals s !! (nat d * nat d + (i * nat d + j)))
                          / complex_of_real (sqrt (2 * real_of_int d))) [0..<nat d]) [0..<nat d],
          s\<lparr>normals := sdrop (2 * (nat d * nat d)) (normals s)\<rparr>)"
proof -
  have 1: "randn2 d d s = Inr (map (\<lambda>i. map (\<lambda>j. normals s !! (i * nat d + j)) [0..<nat d]) [0..<nat d],
      s\<lparr>normals := sdrop (nat d * nat d) (normals s)\<rparr>)"
    using assms by (simp add: randn2_def randn1_def reshape_stake)
  have 2: "randn2 d d (s\<lparr>normals := sdrop (nat d * nat d) (normals s)\<rparr>)
     = Inr (map (\<lambda>i. map (\<lambda>j. normals s !! (nat d * nat d + (i * nat d + j))) [0..<nat d]) [0..<nat d],
      s\<lparr>normals := sdrop (2 * (nat d * nat d)) (normals s)\<rparr>)"
    using assms by (simp add: randn2_def randn1_def reshape_stake sdrop_snth mult_2)
  show ?thesis
    by (simp only: rand_matrix_def 1 2 map2_rows mdiv_def if_False if_True Let_def
        sum.case prod.case) (simp add: comp_def)
qed

lemma ncols_shape: "is_shape r c A \<Longrightarrow> 0 < r \<Longrightarrow> ncols A = c"
  by (cases A) (auto simp: is_shape_def ncols_def)

lemma diagonal_square:
  "is_shape n n R \<Longrightarrow> diagonal R = map (\<lambda>i. R ! i ! i) [0..<n]"
  by (cases "n = 0") (auto simp: diagonal_def ncols_shape is_shape_iff)

lemma is_shape_rdmul:
  "is_shape n m Q \<Longrightarrow> length lam = m \<Longrightarrow> is_shape n m (rdmul Q lam)"
  by (simp add: is_shape_iff rdmul_def)

lemma rdmul_nth:
  "is_shape n m Q \<Longrightarrow> length lam = m \<Longrightarrow> i < n \<Longrightarrow> j < m \<Longrightarrow>
   rdmul Q lam ! i ! j = map_option (\<lambda>z. Q ! i ! j * z) (lam ! j)"
  by (simp add: is_shape_iff rdmul_def)





text \<open>
  C9 fails as stated: when all draws are zero the triangular factor has a zero diagonal,
  and \<open>rand_uni\<close> still returns a matrix, all of whose entries are not a number; no error
  is reported and nothing is sampled again (the eight draws of one sample are consumed).
\<close>

theorem rand_uni_zero_diagonal_counterexample:
  "rand_uni qr_triangular 2 (rng_of [0, 0, 0, 0, 0, 0, 0, 0, 1, 0, 0, 1] [] [] [])
     = Inr ([[None, None], [None, None]], rng_of [1, 0, 0, 1] [] [] [])"
  by (simp add: rand_uni_def rand_matrix_def mdiv_def eval_rng Complex_eq qr_triangular_def
      identity_def diagonal_def ncols_def phases_def rdmul_def)

text \<open>
  C9, amended. \<open>rand_uni\<close> has no guard: for every \<open>d \<ge> 2\<close>, if the diagonal entry \<open>j\<close> of
  the triangular factor is exactly zero, the call still returns a \<open>d\<close> by \<open>d\<close> matrix,
  after one sample (\<open>2 * d * d\<close> draws), and column \<open>j\<close> of that matrix is not a number.
\<close>

theorem rand_uni_zero_diagonal:
  assumes "2 \<le> d"
    and "rand_matrix d True False None s = Inr (M, s')"
    and "qr M = (Q, R)"
    and "is_shape (nat d) (nat d) Q" and "is_shape (nat d) (nat d) R"
    and "j < nat d" and "R ! j ! j = 0"
  shows "\<exists>U. rand_uni qr d s = Inr (U, s')
           \<and> s' = s\<lparr>normals := sdrop (2 * (nat d * nat d)) (normals s)\<rparr>
           \<and> is_shape (nat d) (nat d) U
           \<and> (\<forall>i<nat d. U ! i ! j = None)"
proof -
  let ?lam = "phases (diagonal R)"
  have u: "rand_uni qr d s = Inr (rdmul Q ?lam, s')"
    using assms(2,3) by (simp add: rand_uni_def)
  have s': "s' = s\<lparr>normals := sdrop (2 * (nat d * nat d)) (normals s)\<rparr>"
    using assms(1,2) by (simp add: rand_matrix_dense)
  have len: "length ?lam = nat d"
    using assms(5) by (simp add: phases_def diagonal_square)
  have lam: "?lam ! j = None"
    using assms(5,6,7) by (simp add: phases_def diagonal_square)
  show ?thesis
    using u s' len lam assms(4,6) by (simp add: is_shape_rdmul rdmul_nth)
qed

text \<open>
  C9, amended, at \<open>d = 2\<close> and \<open>j = 0\<close>.
\<close>

theorem rand_uni_zero_diagonal_witness:
  "\<exists>U. rand_uni qr_triangular 2 (rng_of [0, 2, 0, 2] [] [] []) = Inr (U, rng_of [] [] [] [])
      \<and> U ! 0 ! 0 = None \<and> U ! 1 ! 0 = None"
proof -
  let ?s = "rng_of [0, 2, 0, 2] [] [] []"
  let ?M = "[[0, 1], [0, 1]] :: cmat"
  let ?I = "[[1, 0], [0, 1]] :: cmat"
  have 1: "(2::int) \<le> 2" by simp
  have 2: "rand_matrix 2 True False None ?s = Inr (?M, rng_of [] [] [] [])"
    by (simp add: rand_matrix_def mdiv_def eval_rng Complex_eq)
  have 3: "qr_triangular ?M = (?I, ?M)"
    by (simp add: qr_triangular_def identity_def upt_rec)
  have 4: "is_shape (nat 2) (nat 2) ?I" "is_shape (nat 2) (nat 2) ?M" by (simp_all add: is_shape_def)
  have 5: "0 < nat 2" "?M ! 0 ! 0 = 0" by simp_all
  from rand_uni_zero_diagonal [where qr = qr_triangular and Q = ?I and R = ?M, OF 1 2 3 4 5]
  obtain U where u: "rand_uni qr_triangular 2 ?s = Inr (U, rng_of [] [] [] [])"
    and e: "\<forall>i<nat 2. U ! i ! 0 = None"
    by blast
  from e have "U ! 0 ! 0 = None" "U ! 1 ! 0 = None" by simp_all
  with u show ?thesis by blast
qed

section \<open>Properties of gen_rand_haar_states\<close>

lemma after_samples_0: "after_samples n 0 s = s"
  by (simp add: after_samples_def)

lemma rand_uni_dense:
  assumes "0 \<le> d"
  shows "\<exists>U. rand_uni qr d s = Inr (U, s\<lparr>normals := sdrop (2 * (nat d * nat d)) (normals s)\<rparr>)"
  using assms by (simp add: rand_uni_def rand_matrix_dense split: prod.splits)

lemma rand_uni_after:
  assumes "0 \<le> d"
  shows "rand_uni qr d (after_samples (nat d) k s)
           = Inr (sampled_unitary qr d k s, after_samples (nat d) (Suc k) s)"
proof -
  obtain U where u: "rand_uni qr d (after_samples (nat d) k s)
      = Inr (U, (after_samples (nat d) k s)\<lparr>normals :=
          sdrop (2 * (nat d * nat d)) (normals (after_samples (nat d) k s))\<rparr>)"
    using rand_uni_dense [OF assms] by blast
  have "(after_samples (nat d) k s)\<lparr>normals :=
          sdrop (2 * (nat d * nat d)) (normals (after_samples (nat d) k s))\<rparr>
        = after_samples (nat d) (Suc k) s"
    by (simp add: after_samples_def add.commute)
  with u show ?thesis by (simp add: sampled_unitary_def)
qed

lemma rand_uni_shape:
  assumes "0 \<le> d"
    and "\<forall>M. is_shape (nat d) (nat d) M \<longrightarrow>
           is_shape (nat d) (nat d) (fst (qr M)) \<and> is_shape (nat d) (nat d) (snd (qr M))"
    and "rand_uni qr d s = Inr (U, s')"
  shows "is_shape (nat d) (nat d) U"
proof -
  obtain M s1 where m: "rand_matrix d True False None s = Inr (M, s1)"
    using assms(1) by (simp add: rand_matrix_dense)
  have sh: "is_shape (nat d) (nat d) M"
    using m assms(1) by (auto simp: rand_matrix_dense is_shape_iff)
  obtain Q R where qr: "qr M = (Q, R)" by (cases "qr M")
  have "is_shape (nat d) (nat d) Q" "is_shape (nat d) (nat d) R"
    using assms(2) sh qr by force+
  moreover have "U = rdmul Q (phases (diagonal R))"
    using assms(3) m qr by (simp add: rand_uni_def)
  ultimately show ?thesis
    by (simp add: is_shape_rdmul phases_def diagonal_square)
qed

lemma sampled_unitary_shape:
  assumes "0 \<le> d"
    and "\<forall>M. is_shape (nat d) (nat d) M \<longrightarrow>
           is_shape (nat d) (nat d) (fst (qr M)) \<and> is_shape (nat d) (nat d) (snd (qr M))"
  shows "is_shape (nat d) (nat d) (sampled_unitary qr d k s)"
  using rand_uni_shape [OF assms rand_uni_after [OF assms(1)]] .

lemma getcol_square:
  "is_shape n n U \<Longrightarrow> c < n \<Longrightarrow> getcol U (int c) = Inr (column U c)"
  by (auto simp: getcol_def is_shape_def list_all_iff)

lemma div_pred_dvd: "1 \<le> a \<Longrightarrow> a mod n = 0 \<Longrightarrow> (a - 1) div n + 1 = a div (n::nat)"
  by (cases a) (simp_all add: div_Suc)

lemma div_pred_not_dvd: "1 \<le> a \<Longrightarrow> a mod n \<noteq> 0 \<Longrightarrow> (a - 1) div n = a div (n::nat)"
  by (cases a) (simp_all add: div_Suc)

lemma gen_loop_from:
  assumes d: "1 \<le> d"
    and qr: "\<forall>M. is_shape (nat d) (nat d) M \<longrightarrow>
           is_shape (nat d) (nat d) (fst (qr M)) \<and> is_shape (nat d) (nat d) (snd (qr M))"
    and ab: "1 \<le> a" "a \<le> b"
  shows "gen_loop qr d [a..<b] (Some (sampled_unitary qr d ((a - 1) div nat d) s))
           (after_samples (nat d) ((a - 1) div nat d + 1) s)
         = Inr (map (\<lambda>rep. column (sampled_unitary qr d (rep div nat d) s) (rep mod nat d)) [a..<b],
                after_samples (nat d) ((b - 1) div nat d + 1) s)"
  using ab
proof (induction "b - a" arbitrary: a)
  case 0
  then show ?case by simp
next
  case (Suc k)
  let ?n = "nat d"
  have d0: "0 \<le> d" "d \<noteq> 0" "0 < ?n" using d by auto
  have lt: "a < b" using Suc.hyps(2) by simp
  have up: "[a..<b] = a # [Suc a..<b]" using lt by (simp add: upt_conv_Cons)
  have cyc: "int a mod d = int (a mod ?n)" using d0 by (simp add: zmod_int)
  have cn: "a mod ?n < ?n" using d0 by simp
  have IH: "gen_loop qr d [Suc a..<b] (Some (sampled_unitary qr d (a div ?n) s))
           (after_samples ?n (a div ?n + 1) s)
         = Inr (map (\<lambda>rep. column (sampled_unitary qr d (rep div ?n) s) (rep mod ?n)) [Suc a..<b],
                after_samples ?n ((b - 1) div ?n + 1) s)"
    using Suc.hyps(1) [of "Suc a"] Suc.hyps(2) lt by simp
  have col: "getcol (sampled_unitary qr d (a div ?n) s) (int (a mod ?n))
      = Inr (column (sampled_unitary qr d (a div ?n) s) (a mod ?n))"
    by (rule getcol_square [OF sampled_unitary_shape [OF d0(1) qr] cn])
  show ?case
  proof (cases "a mod ?n = 0")
    case True
    have st: "(a - 1) div ?n + 1 = a div ?n" using Suc.prems(1) True by (rule div_pred_dvd)
    show ?thesis
      unfolding up gen_loop.simps st
      using True d0 col IH
      by (simp add: cyc rand_uni_after)
  next
    case False
    have st: "(a - 1) div ?n = a div ?n" using Suc.prems(1) False by (rule div_pred_not_dvd)
    show ?thesis
      unfolding up gen_loop.simps st
      using False d0 col IH
      by (simp add: cyc)
  qed
qed

lemma gen_rand_haar_states_eq:
  assumes d: "1 \<le> d" and r: "1 \<le> reps"
    and qr: "\<forall>M. is_shape (nat d) (nat d) M \<longrightarrow>
           is_shape (nat d) (nat d) (fst (qr M)) \<and> is_shape (nat d) (nat d) (snd (qr M))"
  shows "gen_rand_haar_states qr d reps s
         = Inr (map (\<lambda>rep. column (sampled_unitary qr d (rep div nat d) s) (rep mod nat d))
                  [0..<nat reps],
                after_samples (nat d) ((nat reps - 1) div nat d + 1) s)"
proof -
  let ?n = "nat d"
  have d0: "0 \<le> d" "d \<noteq> 0" "0 < ?n" using d by auto
  have up: "[0..<nat reps] = 0 # [Suc 0..<nat reps]" using r by (simp add: upt_conv_Cons)
  have first: "rand_uni qr d s = Inr (sampled_unitary qr d 0 s, after_samples ?n (Suc 0) s)"
    using rand_uni_after [OF d0(1), of qr 0 s] by (simp add: after_samples_0)
  have col: "getcol (sampled_unitary qr d 0 s) 0 = Inr (column (sampled_unitary qr d 0 s) 0)"
    using getcol_square [OF sampled_unitary_shape [OF d0(1) qr] d0(3), of 0 s] by simp
  have rest: "gen_loop qr d [Suc 0..<nat reps] (Some (sampled_unitary qr d 0 s))
           (after_samples ?n (Suc 0) s)
         = Inr (map (\<lambda>rep. column (sampled_unitary qr d (rep div ?n) s) (rep mod ?n))
                  [Suc 0..<nat reps],
                after_samples ?n ((nat reps - 1) div ?n + 1) s)"
    using gen_loop_from [OF d qr, of 1 "nat reps" s] r by simp
  show ?thesis
    unfolding gen_rand_haar_states_def up gen_loop.simps
    using d0 first col rest by simp
qed

text \<open>
  C5. For every \<open>d \<ge> 2\<close> and \<open>reps \<ge> 1\<close> (and a factorisation that returns \<open>d\<close> by \<open>d\<close>
  factors), \<open>gen_rand_haar_states(d, reps)\<close> yields \<open>reps\<close> vectors; the vector of index
  \<open>rep\<close> is column \<open>rep mod d\<close> of the matrix that \<open>rand_uni(d)\<close> returns on the random
  source left by \<open>rep div d\<close> earlier samples; and after \<open>r\<close> emissions exactly
  \<open>(r - 1) div d + 1\<close> samples have been read, one for each index with \<open>rep mod d = 0\<close>:
  emissions \<open>0 .. d - 1\<close> share the first sample and emission \<open>d\<close> is the first to use
  the second.
\<close>

theorem gen_rand_haar_states_cycle:
  assumes "2 \<le> d" and "1 \<le> reps"
    and "\<forall>M. is_shape (nat d) (nat d) M \<longrightarrow>
           is_shape (nat d) (nat d) (fst (qr M)) \<and> is_shape (nat d) (nat d) (snd (qr M))"
  shows "\<exists>es s'. gen_rand_haar_states qr d reps s = Inr (es, s')
           \<and> length es = nat reps
           \<and> (\<forall>rep<nat reps. \<exists>U s1.
                  rand_uni qr d
                    (s\<lparr>normals := sdrop (rep div nat d * (2 * (nat d * nat d))) (normals s)\<rparr>)
                    = Inr (U, s1)
                  \<and> es ! rep = column U (rep mod nat d))
           \<and> (\<forall>r. 1 \<le> r \<and> r \<le> nat reps \<longrightarrow>
                  gen_rand_haar_states qr d (int r) s
                    = Inr (take r es,
                           s\<lparr>normals := sdrop (((r - 1) div nat d + 1) * (2 * (nat d * nat d)))
                                           (normals s)\<rparr>))"
proof -
  let ?n = "nat d"
  let ?f = "\<lambda>rep. column (sampled_unitary qr d (rep div ?n) s) (rep mod ?n)"
  let ?es = "map ?f [0..<nat reps]"
  have d1: "1 \<le> d" "0 \<le> d" using assms(1) by auto
  have 1: "gen_rand_haar_states qr d reps s
      = Inr (?es, after_samples ?n ((nat reps - 1) div ?n + 1) s)"
    by (rule gen_rand_haar_states_eq [OF d1(1) assms(2,3)])
  have 2: "length ?es = nat reps" by simp
  have 3: "\<exists>U s1. rand_uni qr d
                    (s\<lparr>normals := sdrop (rep div ?n * (2 * (?n * ?n))) (normals s)\<rparr>)
                    = Inr (U, s1) \<and> ?es ! rep = column U (rep mod ?n)"
    if "rep < nat reps" for rep
    using rand_uni_after [OF d1(2), of qr "rep div ?n" s] that
    by (simp add: after_samples_def)
  have 4: "gen_rand_haar_states qr d (int r) s
      = Inr (take r ?es,
             s\<lparr>normals := sdrop (((r - 1) div ?n + 1) * (2 * (?n * ?n))) (normals s)\<rparr>)"
    if "1 \<le> r \<and> r \<le> nat reps" for r
  proof -
    have "1 \<le> int r" using that by simp
    from gen_rand_haar_states_eq [OF d1(1) this assms(3), of s]
    show ?thesis using that by (simp add: after_samples_def take_map)
  qed
  show ?thesis using 1 2 3 4 by blast
qed

lemma qr_triangular_shape:
  "\<forall>M. is_shape n n M \<longrightarrow> is_shape n n (fst (qr_triangular M)) \<and> is_shape n n (snd (qr_triangular M))"
  by (simp add: qr_triangular_def identity_def is_shape_iff)

text \<open>
  C5 at \<open>d = 2\<close> and \<open>reps = 4\<close>: two emissions read one sample, three and four read two.
\<close>

theorem gen_rand_haar_states_cycle_witness:
  "\<exists>es. gen_rand_haar_states qr_triangular 2 4
           (rng_of [2, 0, 0, 2, 0, 0, 0, 0, 4, 0, 0, 4, 0, 0, 0, 0, 7] [] [] [])
         = Inr (es, rng_of [7] [] [] [])
      \<and> length es = 4
      \<and> gen_rand_haar_states qr_triangular 2 2
           (rng_of [2, 0, 0, 2, 0, 0, 0, 0, 4, 0, 0, 4, 0, 0, 0, 0, 7] [] [] [])
         = Inr (take 2 es, rng_of [4, 0, 0, 4, 0, 0, 0, 0, 7] [] [] [])
      \<and> gen_rand_haar_states qr_triangular 2 3
           (rng_of [2, 0, 0, 2, 0, 0, 0, 0, 4, 0, 0, 4, 0, 0, 0, 0, 7] [] [] [])
         = Inr (take 3 es, rng_of [7] [] [] [])"
proof -
  let ?s = "rng_of [2, 0, 0, 2, 0, 0, 0, 0, 4, 0, 0, 4, 0, 0, 0, 0, 7] [] [] []"
  have 1: "(2::int) \<le> 2" "(1::int) \<le> 4" by simp_all
  have s1: "?s\<lparr>normals := sdrop (((2 - 1) div nat 2 + 1) * (2 * (nat 2 * nat 2))) (normals ?s)\<rparr>
      = rng_of [4, 0, 0, 4, 0, 0, 0, 0, 7] [] [] []"
    by (simp add: rng_of_def) (simp add: eval_nat_numeral)?
  have s2: "?s\<lparr>normals := sdrop (((3 - 1) div nat 2 + 1) * (2 * (nat 2 * nat 2))) (normals ?s)\<rparr>
      = rng_of [7] [] [] []"
    by (simp add: rng_of_def) (simp add: eval_nat_numeral)?
  have s3: "?s\<lparr>normals := sdrop (((4 - 1) div nat 2 + 1) * (2 * (nat 2 * nat 2))) (normals ?s)\<rparr>
      = rng_of [7] [] [] []"
    by (simp add: rng_of_def) (simp add: eval_nat_numeral)?
  from gen_rand_haar_states_cycle [OF 1 qr_triangular_shape, of ?s]
  obtain es s' where g: "gen_rand_haar_states qr_triangular 2 4 ?s = Inr (es, s')"
    and len: "length es = nat 4"
    and pre: "\<forall>r. 1 \<le> r \<and> r \<le> nat 4 \<longrightarrow>
                  gen_rand_haar_states qr_triangular 2 (int r) ?s
                    = Inr (take r es,
                           ?s\<lparr>normals := sdrop (((r - 1) div nat 2 + 1) * (2 * (nat 2 * nat 2)))
                                           (normals ?s)\<rparr>)"
    by blast
  have p2: "gen_rand_haar_states qr_triangular 2 2 ?s = Inr (take 2 es, rng_of [4, 0, 0, 4, 0, 0, 0, 0, 7] [] [] [])"
    using pre [rule_format, of 2] s1 by simp
  have p3: "gen_rand_haar_states qr_triangular 2 3 ?s = Inr (take 3 es, rng_of [7] [] [] [])"
    using pre [rule_format, of 3] s2 by simp
  have p4: "gen_rand_haar_states qr_triangular 2 4 ?s = Inr (es, rng_of [7] [] [] [])"
    using pre [rule_format, of 4] s3 len by simp
  show ?thesis using p2 p3 p4 len by auto
qed

section \<open>Properties of rand_product_state\<close>

lemma rand_pure_qubit_eq:
  "rand_pure_qubit s
     = (bloch_qubit (shd (uniforms s)) (shd (stl (uniforms s))),
        s\<lparr>uniforms := stl (stl (uniforms s))\<rparr>)"
  by (simp add: rand_pure_qubit_def rand_def bloch_qubit_def Let_def)

lemma gen_rand_pure_qubits_eq:
  "gen_rand_pure_qubits n s
     = (map (\<lambda>i. bloch_qubit (uniforms s !! (2 * i)) (uniforms s !! (2 * i + 1))) [0..<n],
        s\<lparr>uniforms := sdrop (2 * n) (uniforms s)\<rparr>)"
proof (induction n arbitrary: s)
  case 0
  show ?case by simp
next
  case (Suc n)
  show ?case
    unfolding gen_rand_pure_qubits.simps rand_pure_qubit_eq Suc.IH map_upt_Suc
    by simp
qed

lemma length_tensor: "length (tensor a b) = length a * length b"
  by (induction a) (simp_all add: tensor_def)

lemma tensor_Nil: "tensor [] b = []"
  by (simp add: tensor_def)

lemma tensor_Cons: "tensor (x # a) b = map (\<lambda>y. x * y) b @ tensor a b"
  by (simp add: tensor_def)

lemma sq_scale: "(\<Sum>z\<leftarrow>map (\<lambda>y. x * y) b. (cmod z)\<^sup>2) = (cmod x)\<^sup>2 * (\<Sum>z\<leftarrow>b. (cmod z)\<^sup>2)"
  by (induction b) (simp_all add: norm_mult power_mult_distrib algebra_simps)

lemma sq_tensor:
  "(\<Sum>z\<leftarrow>tensor a b. (cmod z)\<^sup>2) = (\<Sum>z\<leftarrow>a. (cmod z)\<^sup>2) * (\<Sum>z\<leftarrow>b. (cmod z)\<^sup>2)"
proof (induction a)
  case Nil
  show ?case by (simp add: tensor_Nil)
next
  case (Cons x a)
  have "(\<Sum>z\<leftarrow>tensor (x # a) b. (cmod z)\<^sup>2)
      = (\<Sum>z\<leftarrow>map (\<lambda>y. x * y) b. (cmod z)\<^sup>2) + (\<Sum>z\<leftarrow>tensor a b. (cmod z)\<^sup>2)"
    by (simp only: tensor_Cons map_append sum_list_append)
  also have "\<dots> = (cmod x)\<^sup>2 * (\<Sum>z\<leftarrow>b. (cmod z)\<^sup>2)
      + (\<Sum>z\<leftarrow>a. (cmod z)\<^sup>2) * (\<Sum>z\<leftarrow>b. (cmod z)\<^sup>2)"
    by (simp only: sq_scale Cons.IH)
  also have "\<dots> = (\<Sum>z\<leftarrow>x # a. (cmod z)\<^sup>2) * (\<Sum>z\<leftarrow>b. (cmod z)\<^sup>2)"
    by (simp add: algebra_simps)
  finally show ?case .
qed

lemma sq_bloch_qubit: "(\<Sum>z\<leftarrow>bloch_qubit u v. (cmod z)\<^sup>2) = 1"
  by (simp add: bloch_qubit_def norm_mult power_mult_distrib)

lemma length_bloch_qubit: "length (bloch_qubit u v) = 2"
  by (simp add: bloch_qubit_def)

lemma foldl_tensor_length:
  "\<forall>q\<in>set qs. length q = 2 \<Longrightarrow> length (foldl tensor acc qs) = length acc * 2 ^ length qs"
  by (induction qs arbitrary: acc) (simp_all add: length_tensor)

lemma foldl_tensor_sq:
  "\<forall>q\<in>set qs. (\<Sum>z\<leftarrow>q. (cmod z)\<^sup>2) = 1 \<Longrightarrow>
   (\<Sum>z\<leftarrow>foldl tensor acc qs. (cmod z)\<^sup>2) = (\<Sum>z\<leftarrow>acc. (cmod z)\<^sup>2)"
  by (induction qs arbitrary: acc) (simp_all add: sq_tensor)

text \<open>
  C7. For every \<open>n \<ge> 0\<close> and uniform draws in \<open>[0, 1)\<close>, \<open>rand_product_state(n)\<close> is the
  tensor product, in the order of sampling, of the \<open>n\<close> qubits of the spec built from
  the successive pairs of draws \<open>(u, v)\<close>; it has \<open>2 ^ n\<close> entries and unit norm, and for
  \<open>n = 0\<close> it is the scalar 1.
\<close>

theorem rand_product_state_kron:
  assumes "0 \<le> n" and "sset (uniforms s) \<subseteq> {0..<1}"
  shows "\<exists>psi s'. rand_product_state n s = (psi, s')
           \<and> psi = kron (map (\<lambda>i. bloch_qubit (uniforms s !! (2 * i)) (uniforms s !! (2 * i + 1)))
                          [0..<nat n])
           \<and> uniforms s' = sdrop (2 * nat n) (uniforms s)
           \<and> length psi = 2 ^ nat n
           \<and> vnorm psi = 1
           \<and> (n = 0 \<longrightarrow> psi = [1])"
proof -
  let ?qs = "map (\<lambda>i. bloch_qubit (uniforms s !! (2 * i)) (uniforms s !! (2 * i + 1))) [0..<nat n]"
  have 1: "rand_product_state n s = (kron ?qs, s\<lparr>uniforms := sdrop (2 * nat n) (uniforms s)\<rparr>)"
    by (simp add: rand_product_state_def gen_rand_pure_qubits_eq)
  have 2: "length (kron ?qs) = 2 ^ nat n"
    using foldl_tensor_length [of ?qs "[1]"] by (auto simp: kron_def length_bloch_qubit)
  have "(\<Sum>z\<leftarrow>kron ?qs. (cmod z)\<^sup>2) = 1"
    using foldl_tensor_sq [of ?qs "[1]"] by (auto simp: kron_def sq_bloch_qubit)
  then have 3: "vnorm (kron ?qs) = 1" by (simp add: vnorm_def)
  have 4: "n = 0 \<longrightarrow> kron ?qs = [1]" by (simp add: kron_def)
  show ?thesis using 1 2 3 4 by simp
qed

text \<open>
  C7 at \<open>n = 2\<close>.
\<close>

theorem rand_product_state_kron_witness:
  "\<exists>psi s'. rand_product_state 2 (rng_of [] [1/2, 1/2, 1/4, 3/4] [] []) = (psi, s')
     \<and> psi = kron [bloch_qubit (1/2) (1/2), bloch_qubit (1/4) (3/4)]
     \<and> length psi = 4 \<and> vnorm psi = 1"
proof -
  let ?s = "rng_of [] [1/2, 1/2, 1/4, 3/4] [] []"
  have 1: "(0::int) \<le> 2" by simp
  have 2: "sset (uniforms ?s) \<subseteq> {0..<1}" by (simp add: rng_of_def)
  have 3: "map (\<lambda>i. bloch_qubit (uniforms ?s !! (2 * i)) (uniforms ?s !! (2 * i + 1))) [0..<nat 2]
      = [bloch_qubit (1/2) (1/2), bloch_qubit (1/4) (3/4)]"
    by (simp add: rng_of_def upt_rec eval_nat_numeral)
  from rand_product_state_kron [OF 1 2] show ?thesis unfolding 3 by auto
qed

section \<open>Properties of rand_mix\<close>

lemma randint_mix:
  assumes "2 \<le> d"
  shows "randint 2 (d + 1) s
           = Inr (2 + int (shd (integers s) mod nat (d - 1)), s\<lparr>integers := stl (integers s)\<rparr>)"
    and "2 \<le> 2 + int (shd (integers s) mod nat (d - 1))"
    and "2 + int (shd (integers s) mod nat (d - 1)) \<le> d"
proof -
  have eq: "d + 1 - 2 = d - 1" by simp
  show "randint 2 (d + 1) s
           = Inr (2 + int (shd (integers s) mod nat (d - 1)), s\<lparr>integers := stl (integers s)\<rparr>)"
    using assms by (simp add: randint_def eq)
  show "2 \<le> 2 + int (shd (integers s) mod nat (d - 1))" by simp
  have "shd (integers s) mod nat (d - 1) < nat (d - 1)" using assms by simp
  then show "2 + int (shd (integers s) mod nat (d - 1)) \<le> d" using assms by linarith
qed

lemma rand_ket_dense:
  assumes "0 \<le> n"
  shows "rand_ket n False \<rho> s
           = Inr (nmlz (map (\<lambda>k. Complex (normals s !! k) (normals s !! (nat n + k))) [0..<nat n]),
                  s\<lparr>normals := sdrop (2 * nat n) (normals s)\<rparr>)"
proof -
  have 1: "randn2 n 1 s = Inr (map (\<lambda>i. map (\<lambda>j. normals s !! (i + j)) [0..<1]) [0..<nat n],
      s\<lparr>normals := sdrop (nat n) (normals s)\<rparr>)"
    using assms reshape_stake [of "nat n" 1 "normals s"] by (simp add: randn2_def randn1_def)
  have 2: "randn2 n 1 (s\<lparr>normals := sdrop (nat n) (normals s)\<rparr>)
     = Inr (map (\<lambda>i. map (\<lambda>j. normals s !! (nat n + (i + j))) [0..<1]) [0..<nat n],
      s\<lparr>normals := sdrop (2 * nat n) (normals s)\<rparr>)"
    using assms reshape_stake [of "nat n" 1 "sdrop (nat n) (normals s)"]
    by (simp add: randn2_def randn1_def sdrop_snth mult_2)
  show ?thesis
    by (simp only: rand_ket_def 1 2 map2_rows if_False sum.case prod.case) simp
qed

lemma sq_nonneg: "0 \<le> (\<Sum>z\<leftarrow>v. (cmod z)\<^sup>2)"
  by (rule sum_list_nonneg) auto

lemma vnorm_sq: "(vnorm v)\<^sup>2 = (\<Sum>z\<leftarrow>v. (cmod z)\<^sup>2)"
  by (simp add: vnorm_def sq_nonneg)

lemma vnorm_zero_iff: "vnorm v = 0 \<longleftrightarrow> (\<forall>z\<in>set v. z = 0)"
proof -
  have "(\<Sum>z\<leftarrow>v. (cmod z)\<^sup>2) = 0 \<longleftrightarrow> (\<forall>x\<in>set (map (\<lambda>z. (cmod z)\<^sup>2) v). x = 0)"
    by (rule sum_list_nonneg_eq_0_iff) auto
  then show ?thesis by (simp add: vnorm_def)
qed

lemma sq_div:
  "(\<Sum>z\<leftarrow>map (\<lambda>z. z / complex_of_real c) v. (cmod z)\<^sup>2) = (\<Sum>z\<leftarrow>v. (cmod z)\<^sup>2) / c\<^sup>2"
  by (induction v) (simp_all add: norm_divide power_divide add_divide_distrib)

lemma nmlz_unit:
  assumes "nmlz v = Some w"
  shows "length w = length v" and "vnorm w = 1"
proof -
  have nz: "vnorm v \<noteq> 0" and w: "w = map (\<lambda>z. z / complex_of_real (vnorm v)) v"
    using assms by (auto simp: nmlz_def split: if_splits)
  show "length w = length v" using w by simp
  have "(\<Sum>z\<leftarrow>w. (cmod z)\<^sup>2) = (\<Sum>z\<leftarrow>v. (cmod z)\<^sup>2) / (vnorm v)\<^sup>2"
    unfolding w by (rule sq_div)
  also have "\<dots> = 1" using nz by (simp add: vnorm_sq [symmetric])
  finally show "vnorm w = 1" by (simp add: vnorm_def)
qed

lemma sum_blocks:
  fixes f :: "nat \<Rightarrow> 'a::comm_monoid_add"
  shows "(\<Sum>i<a. \<Sum>k<b. f (i * b + k)) = (\<Sum>n<a * b. f n)"
proof -
  have "(\<Sum>k<b. f (i * b + k)) = sum f {i * b ..< i * b + b}" for i
    using sum.shift_bounds_nat_ivl [of f 0 "i * b" b]
    by (simp add: lessThan_atLeast0 add.commute)
  then show ?thesis by (simp add: sum.nat_group)
qed

lemma is_shape_ptr: "is_shape a a (ptr v (a, b) 0)"
  by (simp add: ptr_def is_shape_iff)

lemma ptr_nth:
  "i < a \<Longrightarrow> j < a \<Longrightarrow>
   ptr v (a, b) 0 ! i ! j = (\<Sum>k<b. v ! (i * b + k) * cnj (v ! (j * b + k)))"
  by (simp add: ptr_def)

lemma trace_ptr:
  assumes "length v = a * b"
  shows "trace (ptr v (a, b) 0) = complex_of_real ((vnorm v)\<^sup>2)"
proof -
  have "trace (ptr v (a, b) 0) = (\<Sum>i<a. \<Sum>k<b. v ! (i * b + k) * cnj (v ! (i * b + k)))"
    by (simp add: trace_def ptr_def)
  also have "\<dots> = (\<Sum>n<a * b. v ! n * cnj (v ! n))"
    by (rule sum_blocks)
  also have "\<dots> = (\<Sum>n<length v. complex_of_real ((cmod (v ! n))\<^sup>2))"
    unfolding assms by (rule sum.cong [OF refl]) (simp only: complex_norm_square)
  also have "\<dots> = complex_of_real (\<Sum>n<length v. (cmod (v ! n))\<^sup>2)"
    by simp
  also have "(\<Sum>n<length v. (cmod (v ! n))\<^sup>2) = (\<Sum>z\<leftarrow>v. (cmod z)\<^sup>2)"
    by (simp add: sum_list_sum_nth lessThan_atLeast0)
  finally show ?thesis by (simp add: vnorm_sq)
qed

lemma nmlz_None_iff:
  "nmlz (map (\<lambda>k. Complex (f k) (g k)) [0..<n]) = None \<longleftrightarrow> (\<forall>k<n. f k = 0 \<and> g k = 0)"
  by (auto simp: nmlz_def vnorm_zero_iff complex_eq_iff)

text \<open>
  C4 fails as stated: at \<open>d = 1\<close> the range \<open>[2, d]\<close> is empty and \<open>rand_mix\<close> ends in the
  ValueError of \<open>randint\<close>; and when all draws of the ket are zero its normalisation is
  \<open>0 / 0\<close>, so that the result is not a number and has no unit trace.
\<close>

theorem rand_mix_counterexample:
  "rand_mix 1 (rng_of [1] [] [0] []) = Inl ValueError
   \<and> rand_mix 2 (rng_of [] [] [0] []) = Inr (None, rng_of [] [] [] [])"
  by (simp add: rand_mix_def randint_def rand_ket_def nmlz_def vnorm_def eval_rng Complex_eq)

text \<open>
  C4, amended. For every \<open>d \<ge> 2\<close>, \<open>rand_mix(d)\<close> draws \<open>m\<close> in the inclusive range
  \<open>[2, d]\<close>, samples a ket of dimension \<open>d * m\<close> with \<open>rand_ket\<close>, and returns its partial
  trace over the partition \<open>(d, m)\<close> that keeps subsystem 0 (sums over the auxiliary index).
  The ket is not a number exactly when all its draws are zero; otherwise it has unit norm
  and the result is a \<open>d\<close> by \<open>d\<close> matrix of trace 1, whatever \<open>m\<close> was drawn.
\<close>

theorem rand_mix_unit_trace:
  assumes "2 \<le> d"
  shows "\<exists>m psi s2.
           randint 2 (d + 1) s = Inr (m, s\<lparr>integers := stl (integers s)\<rparr>)
           \<and> 2 \<le> m \<and> m \<le> d
           \<and> rand_ket (d * m) False (1/100) (s\<lparr>integers := stl (integers s)\<rparr>) = Inr (psi, s2)
           \<and> rand_mix d s = Inr (map_option (\<lambda>v. ptr v (nat d, nat m) 0) psi, s2)
           \<and> (psi = None \<longleftrightarrow>
                (\<forall>k<nat (d * m). normals s !! k = 0 \<and> normals s !! (nat (d * m) + k) = 0))
           \<and> (\<forall>v. psi = Some v \<longrightarrow>
                  length v = nat (d * m) \<and> vnorm v = 1
                  \<and> is_shape (nat d) (nat d) (ptr v (nat d, nat m) 0)
                  \<and> (\<forall>i<nat d. \<forall>j<nat d.
                        ptr v (nat d, nat m) 0 ! i ! j
                          = (\<Sum>k<nat m. v ! (i * nat m + k) * cnj (v ! (j * nat m + k))))
                  \<and> trace (ptr v (nat d, nat m) 0) = 1)"
proof -
  define m where "m = 2 + int (shd (integers s) mod nat (d - 1))"
  define s1 where "s1 = s\<lparr>integers := stl (integers s)\<rparr>"
  define raw where "raw = map (\<lambda>k. Complex (normals s !! k) (normals s !! (nat (d * m) + k)))
                            [0..<nat (d * m)]"
  define s2 where "s2 = s1\<lparr>normals := sdrop (2 * nat (d * m)) (normals s1)\<rparr>"
  have r: "randint 2 (d + 1) s = Inr (m, s1)" and m: "2 \<le> m" "m \<le> d"
    using randint_mix [OF assms, of s] by (simp_all add: m_def s1_def)
  have dm: "0 \<le> d * m" using assms m by simp
  have nat_dm: "nat (d * m) = nat d * nat m" using assms by (simp add: nat_mult_distrib)
  have k: "rand_ket (d * m) False (1/100) s1 = Inr (nmlz raw, s2)"
    using rand_ket_dense [OF dm, of "1/100" s1] by (simp add: raw_def s2_def s1_def)
  have x: "rand_mix d s = Inr (map_option (\<lambda>v. ptr v (nat d, nat m) 0) (nmlz raw), s2)"
    by (simp add: rand_mix_def r k)
  have n: "nmlz raw = None \<longleftrightarrow>
      (\<forall>k<nat (d * m). normals s !! k = 0 \<and> normals s !! (nat (d * m) + k) = 0)"
    unfolding raw_def by (rule nmlz_None_iff)
  have v: "length v = nat (d * m) \<and> vnorm v = 1
                  \<and> is_shape (nat d) (nat d) (ptr v (nat d, nat m) 0)
                  \<and> (\<forall>i<nat d. \<forall>j<nat d.
                        ptr v (nat d, nat m) 0 ! i ! j
                          = (\<Sum>k<nat m. v ! (i * nat m + k) * cnj (v ! (j * nat m + k))))
                  \<and> trace (ptr v (nat d, nat m) 0) = 1"
    if "nmlz raw = Some v" for v
  proof -
    have len: "length v = nat (d * m)" and one: "vnorm v = 1"
      using nmlz_unit [OF that] by (simp_all add: raw_def)
    have "trace (ptr v (nat d, nat m) 0) = complex_of_real ((vnorm v)\<^sup>2)"
      by (rule trace_ptr) (simp add: len nat_dm)
    then show ?thesis using len one by (simp add: is_shape_ptr ptr_nth)
  qed
  show ?thesis
  proof (intro exI conjI)
    show "randint 2 (d + 1) s = Inr (m, s\<lparr>integers := stl (integers s)\<rparr>)"
      using r by (simp add: s1_def)
    show "2 \<le> m" "m \<le> d" by (rule m)+
    show "rand_ket (d * m) False (1/100) (s\<lparr>integers := stl (integers s)\<rparr>) = Inr (nmlz raw, s2)"
      using k by (simp add: s1_def)
    show "rand_mix d s = Inr (map_option (\<lambda>v. ptr v (nat d, nat m) 0) (nmlz raw), s2)"
      by (rule x)
    show "nmlz raw = None \<longleftrightarrow>
      (\<forall>k<nat (d * m). normals s !! k = 0 \<and> normals s !! (nat (d * m) + k) = 0)"
      by (rule n)
    show "\<forall>v. nmlz raw = Some v \<longrightarrow>
                  length v = nat (d * m) \<and> vnorm v = 1
                  \<and> is_shape (nat d) (nat d) (ptr v (nat d, nat m) 0)
                  \<and> (\<forall>i<nat d. \<forall>j<nat d.
                        ptr v (nat d, nat m) 0 ! i ! j
                          = (\<Sum>k<nat m. v ! (i * nat m + k) * cnj (v ! (j * nat m + k))))
                  \<and> trace (ptr v (nat d, nat m) 0) = 1"
      using v by blast
  qed
qed

text \<open>
  C4, amended, at \<open>d = 2\<close> with a ket whose first draw is 1.
\<close>

theorem rand_mix_unit_trace_witness:
  "\<exists>rho s'. rand_mix 2 (rng_of [1, 0, 0, 0, 0, 0, 0, 0] [] [5] []) = Inr (Some rho, s')
      \<and> is_shape 2 2 rho \<and> trace rho = 1"
proof -
  let ?s = "rng_of [1, 0, 0, 0, 0, 0, 0, 0] [] [5] []"
  have 1: "(2::int) \<le> 2" by simp
  from rand_mix_unit_trace [OF 1, of ?s]
  obtain m psi s2 where m: "2 \<le> m"
    and x: "rand_mix 2 ?s = Inr (map_option (\<lambda>v. ptr v (nat 2, nat m) 0) psi, s2)"
    and n: "psi = None \<longleftrightarrow>
                (\<forall>k<nat (2 * m). normals ?s !! k = 0 \<and> normals ?s !! (nat (2 * m) + k) = 0)"
    and v: "\<forall>v. psi = Some v \<longrightarrow>
                  is_shape (nat 2) (nat 2) (ptr v (nat 2, nat m) 0)
                  \<and> trace (ptr v (nat 2, nat m) 0) = 1"
    by blast
  have "normals ?s !! 0 \<noteq> 0" by (simp add: rng_of_def)
  moreover have "0 < nat (2 * m)" using m by simp
  ultimately have "psi \<noteq> None" using n by blast
  then obtain w where w: "psi = Some w" by auto
  show ?thesis using x v w by simp
qed

section \<open>Properties of rand_herm\<close>

lemma rand_matrix_returns:
  assumes "1 \<le> d" "0 < \<rho>" "\<rho> \<le> 1"
  shows "\<exists>M s'. rand_matrix d True sparse (Some \<rho>) s = Inr (M, s') \<and> is_shape (nat d) (nat d) M"
proof (cases sparse)
  case True
  have x: "sqrt (2 * real_of_int d * \<rho>) \<noteq> 0" using assms by simp
  show ?thesis using assms True x
    by (simp add: rand_matrix_def sp_random_def randn1_def Let_def is_shape_of_sparse)
next
  case False
  then show ?thesis using assms
    by (simp add: rand_matrix_def randn2_def randn1_def Let_def mdiv_def reshape_def is_shape_iff)
qed

lemma map_by_index: "map f xs = map (\<lambda>i. f (xs ! i)) [0..<length xs]"
  by (rule nth_equalityI) simp_all

lemma dagger_square:
  assumes "is_shape n n A"
  shows "dagger A = map (\<lambda>j. map (\<lambda>i. cnj (A ! i ! j)) [0..<n]) [0..<n]"
proof (cases "n = 0")
  case True
  then have "A = []" using assms by (simp add: is_shape_def)
  then show ?thesis using True by (simp add: dagger_def ncols_def)
next
  case False
  then have c: "ncols A = n" using assms by (simp add: ncols_shape)
  have l: "length A = n" using assms by (simp add: is_shape_def)
  have "column A j = map (\<lambda>i. A ! i ! j) [0..<n]" for j
    unfolding column_def using map_by_index [of "\<lambda>row. row ! j" A] l by simp
  then show ?thesis by (simp add: dagger_def c)
qed

lemma is_shape_dagger:
  assumes "is_shape n n A"
  shows "is_shape n n (dagger A)"
  unfolding dagger_square [OF assms] by (simp add: is_shape_iff)

lemma dagger_nth:
  assumes "is_shape n n A" "i < n" "j < n"
  shows "dagger A ! i ! j = cnj (A ! j ! i)"
  unfolding dagger_square [OF assms(1)] using assms(2,3) by simp

lemma is_shape_madd: "is_shape n m A \<Longrightarrow> is_shape n m B \<Longrightarrow> is_shape n m (madd A B)"
  by (simp add: madd_def is_shape_iff)

lemma madd_nth:
  "is_shape n m A \<Longrightarrow> is_shape n m B \<Longrightarrow> i < n \<Longrightarrow> j < m \<Longrightarrow>
   madd A B ! i ! j = A ! i ! j + B ! i ! j"
  by (simp add: madd_def is_shape_iff)

lemma is_shape_mdiv: "is_shape n m A \<Longrightarrow> is_shape n m (mdiv A c)"
  by (simp add: mdiv_def is_shape_iff)

lemma mdiv_nth:
  "is_shape n m A \<Longrightarrow> i < n \<Longrightarrow> j < m \<Longrightarrow> mdiv A c ! i ! j = A ! i ! j / complex_of_real c"
  by (simp add: mdiv_def is_shape_iff)

lemma symmetrize_hermitian:
  assumes "is_shape n n B"
  shows "dagger (madd B (dagger B)) = madd B (dagger B)"
proof (rule mat_eqI)
  show "is_shape n n (dagger (madd B (dagger B)))"
    by (intro is_shape_dagger is_shape_madd assms)
  show "is_shape n n (madd B (dagger B))"
    by (intro is_shape_dagger is_shape_madd assms)
  fix i j assume ij: "i < n" "j < n"
  have d: "is_shape n n (dagger B)" by (rule is_shape_dagger [OF assms])
  have s: "is_shape n n (madd B (dagger B))" by (rule is_shape_madd [OF assms d])
  show "dagger (madd B (dagger B)) ! i ! j = madd B (dagger B) ! i ! j"
    by (simp add: dagger_nth [OF s ij] madd_nth [OF assms d ij] madd_nth [OF assms d ij(2,1)]
        dagger_nth [OF assms ij] dagger_nth [OF assms ij(2,1)])
qed

lemma symmetrize_mdiv:
  assumes "is_shape n n M"
  shows "madd (mdiv M c) (dagger (mdiv M c)) = mdiv (madd M (dagger M)) c"
proof (rule mat_eqI)
  show "is_shape n n (madd (mdiv M c) (dagger (mdiv M c)))"
    by (intro is_shape_dagger is_shape_madd is_shape_mdiv assms)
  show "is_shape n n (mdiv (madd M (dagger M)) c)"
    by (intro is_shape_dagger is_shape_madd is_shape_mdiv assms)
  fix i j assume ij: "i < n" "j < n"
  have b: "is_shape n n (mdiv M c)" by (rule is_shape_mdiv [OF assms])
  have db: "is_shape n n (dagger (mdiv M c))" by (rule is_shape_dagger [OF b])
  have dm: "is_shape n n (dagger M)" by (rule is_shape_dagger [OF assms])
  have s: "is_shape n n (madd M (dagger M))" by (rule is_shape_madd [OF assms dm])
  show "madd (mdiv M c) (dagger (mdiv M c)) ! i ! j = mdiv (madd M (dagger M)) c ! i ! j"
    by (simp add: madd_nth [OF b db ij] dagger_nth [OF b ij] mdiv_nth [OF assms ij]
        mdiv_nth [OF assms ij(2,1)] mdiv_nth [OF s ij] madd_nth [OF assms dm ij]
        dagger_nth [OF assms ij] add_divide_distrib)
qed

text \<open>
  With a density in \<open>(0, 1]\<close>, supplied or resolved in sparse mode, \<open>rand_herm\<close> returns
  \<open>(M + M\<^sup>*) / 2 powr (3/2)\<close> for the scaled sample \<open>M\<close> of half that density, a matrix equal to
  its own conjugate transpose.
\<close>

lemma rand_herm_hermitian:
  assumes "1 \<le> d"
    and "density = Some \<rho> \<or> (density = None \<and> sparse \<and> \<rho> = min (1/2) (10 / real_of_int d))"
    and "0 < \<rho>" "\<rho> \<le> 1"
  shows "\<exists>M H s'. rand_matrix d True sparse (Some (\<rho> / 2)) s = Inr (M, s')
           \<and> rand_herm d sparse density s = Inr (H, s')
           \<and> is_shape (nat d) (nat d) H
           \<and> H = mdiv (madd M (dagger M)) (2 powr (3/2))
           \<and> dagger H = H"
proof -
  have res: "resolve_density d sparse density = Inr (Some \<rho>)"
    using assms(1,2) by (auto simp: resolve_density_def default_density_def)
  obtain M s' where m: "rand_matrix d True sparse (Some (\<rho> / 2)) s = Inr (M, s')"
    and sh: "is_shape (nat d) (nat d) M"
    using rand_matrix_returns [of d "\<rho> / 2" sparse s] assms by auto
  let ?B = "mdiv M (2 powr (3/2))"
  have b: "is_shape (nat d) (nat d) ?B" by (rule is_shape_mdiv [OF sh])
  have h: "rand_herm d sparse density s = Inr (madd ?B (dagger ?B), s')"
    by (simp add: rand_herm_def res m Let_def)
  show ?thesis
    using m h symmetrize_hermitian [OF b] symmetrize_mdiv [OF sh, of "2 powr (3/2)"]
      is_shape_madd [OF b is_shape_dagger [OF b]]
    by simp
qed

text \<open>
  C3 at the failing input: the call \<open>rand_herm(2)\<close>, with \<open>sparse\<close> false and no density,
  returns no Hermitian matrix; it ends in TypeError, whatever the random source.
\<close>

theorem rand_herm_default_call:
  "rand_herm 2 False None s = Inl TypeError"
  by (simp add: rand_herm_def resolve_density_def)

end
